theory Spec2Isabelle
  imports Complex_Main "HOL-Library.AList" "HOL-Library.Sublist"
begin

section \<open>Strings\<close>

text \<open>
  A JavaScript string is modelled as a \<^typ>\<open>string\<close>; a \<^typ>\<open>char\<close> stands for one code
  unit below 256.  \<open>String.prototype.trim\<close> removes white space and line terminators from
  both ends; among the code units below 256 these are TAB, LF, VT, FF, CR, SPACE and the
  no-break space.
\<close>

definition is_js_space :: "char \<Rightarrow> bool" where
  "is_js_space c =
     (c = CHR 0x09 \<or> c = CHR 0x0A \<or> c = CHR 0x0B \<or> c = CHR 0x0C \<or> c = CHR 0x0D \<or>
      c = CHR 0x20 \<or> c = CHR 0xA0)"

definition trim :: "string \<Rightarrow> string" where
  "trim s = rev (dropWhile is_js_space (rev (dropWhile is_js_space s)))"

text \<open>\<open>Array.prototype.join\<close> on an array of strings.\<close>

fun join :: "string \<Rightarrow> string list \<Rightarrow> string" where
  "join sep [] = []"
| "join sep [x] = x"
| "join sep (x # y # ys) = x @ sep @ join sep (y # ys)"

text \<open>
  \<open>occurs_at needle hay i\<close>: the text \<open>needle\<close> occurs in \<open>hay\<close> starting at position
  \<open>i\<close>.  \<open>occurrences\<close> lists every such position in increasing order.
\<close>

definition occurs_at :: "string \<Rightarrow> string \<Rightarrow> nat \<Rightarrow> bool" where
  "occurs_at needle hay i = (i + length needle \<le> length hay \<and> take (length needle) (drop i hay) = needle)"

definition occurrences :: "string \<Rightarrow> string \<Rightarrow> nat list" where
  "occurrences needle hay = filter (occurs_at needle hay) [0..<Suc (length hay)]"


section \<open>Values produced by \<open>JSON.parse\<close>\<close>

text \<open>
  The number a JSON numeral is parsed to: a finite value (every finite double is a
  rational; the two zeros are not told apart) or, for a numeral too large for a double,
  an infinity.
\<close>

datatype js_number = Finite rat | PosInfinity | NegInfinity

text \<open>
  The value returned by \<open>JSON.parse\<close>.  An object is the list of its own properties in
  property enumeration order (the order of \<open>for ... in\<close>, \<open>Object.keys\<close> and
  \<open>Object.entries\<close>); its keys are pairwise distinct.
\<close>

datatype json =
    JNull
  | JBool bool
  | JNumber js_number
  | JString string
  | JArray "json list"
  | JObject "(string \<times> json) list"

text \<open>JavaScript truthiness (\<open>ToBoolean\<close>).\<close>

fun truthy :: "json \<Rightarrow> bool" where
  "truthy JNull = False"
| "truthy (JBool b) = b"
| "truthy (JNumber n) = (n \<noteq> Finite 0)"
| "truthy (JString s) = (s \<noteq> [])"
| "truthy (JArray xs) = True"
| "truthy (JObject kvs) = True"

text \<open>\<open>typeof v === 'object'\<close>; it holds of \<open>null\<close> and of arrays too.\<close>

fun typeof_object :: "json \<Rightarrow> bool" where
  "typeof_object JNull = True"
| "typeof_object (JArray xs) = True"
| "typeof_object (JObject kvs) = True"
| "typeof_object v = False"

text \<open>The decimal numeral that names an array index.\<close>

definition digit_char :: "nat \<Rightarrow> char" where
  "digit_char d = char_of (48 + d)"

function decimal :: "nat \<Rightarrow> string" where
  "decimal n = (if n < 10 then [digit_char n] else decimal (n div 10) @ [digit_char (n mod 10)])"
  by pat_completeness auto
termination
  by (relation "measure id") auto

text \<open>
  The own enumerable string-keyed properties of a parsed value, in enumeration order.  An
  array has its indices, a string (through its wrapper object) has one property per code
  unit, and \<open>null\<close>, booleans and numbers have none.
\<close>

fun own_properties :: "json \<Rightarrow> (string \<times> json) list" where
  "own_properties (JObject kvs) = kvs"
| "own_properties (JArray xs) = zip (map decimal [0..<length xs]) xs"
| "own_properties (JString s) = zip (map decimal [0..<length s]) (map (\<lambda>c. JString [c]) s)"
| "own_properties v = []"

text \<open>
  The keys visited by \<open>for (const key in parsedJson)\<close>.  \<open>Object.prototype\<close>,
  \<open>Array.prototype\<close> and \<open>String.prototype\<close> contribute no enumerable property, so these are
  the own keys.
\<close>

definition for_in_keys :: "json \<Rightarrow> string list" where
  "for_in_keys v = map fst (own_properties v)"

definition hasOwnProperty :: "json \<Rightarrow> string \<Rightarrow> bool" where
  "hasOwnProperty v key = (key \<in> set (map fst (own_properties v)))"

text \<open>\<open>parsedJson[key]\<close> for a key the loop visits; \<open>None\<close> is \<open>undefined\<close>.\<close>

definition get_property :: "json \<Rightarrow> string \<Rightarrow> json option" where
  "get_property v key = map_of (own_properties v) key"

subsection \<open>Property enumeration order\<close>

text \<open>
  An ordinary object enumerates its array indices first, in ascending numeric order, and
  then its other string keys in the order in which they were created.  An array index is
  the decimal numeral, without superfluous leading zero, of an integer below 4294967295.
\<close>

definition is_digit :: "char \<Rightarrow> bool" where
  "is_digit c = (48 \<le> (of_char c :: int) \<and> (of_char c :: int) \<le> 57)"

definition index_value :: "string \<Rightarrow> int" where
  "index_value key = foldl (\<lambda>n c. 10 * n + (of_char c - 48)) 0 key"

definition is_array_index :: "string \<Rightarrow> bool" where
  "is_array_index key =
     (key \<noteq> [] \<and> list_all is_digit key \<and> (key = ''0'' \<or> hd key \<noteq> CHR ''0'') \<and>
      index_value key < 4294967295)"

text \<open>\<open>enumerated_before a b\<close>: in one object, the key \<open>a\<close> may be enumerated before the key \<open>b\<close>.\<close>

definition enumerated_before :: "string \<Rightarrow> string \<Rightarrow> bool" where
  "enumerated_before a b =
     (if is_array_index a
      then (if is_array_index b then index_value a < index_value b else True)
      else \<not> is_array_index b)"

text \<open>The keys of an object, listed in enumeration order, satisfy \<open>enumeration_order\<close>.\<close>

definition enumeration_order :: "string list \<Rightarrow> bool" where
  "enumeration_order keys = (distinct keys \<and> sorted_wrt enumerated_before keys)"

text \<open>
  Creating a property that the object does not have yet: an array index goes to its
  numeric place among the indices, any other key goes last.
\<close>

definition add_property :: "(string \<times> json) list \<Rightarrow> string \<Rightarrow> json \<Rightarrow> (string \<times> json) list" where
  "add_property obj key v =
     (if is_array_index key
      then takeWhile (\<lambda>p. enumerated_before (fst p) key) obj @ [(key, v)] @
           dropWhile (\<lambda>p. enumerated_before (fst p) key) obj
      else obj @ [(key, v)])"


section \<open>The generator service\<close>

text \<open>\<open>GeneratedOutput\<close> as it exists at run time: the own properties of \<open>cleanOutput\<close>.\<close>

type_synonym generated_output = "(string \<times> json) list"

datatype hdl_language = VHDL | Verilog

fun language_name :: "hdl_language \<Rightarrow> string" where
  "language_name VHDL = ''VHDL''"
| "language_name Verilog = ''Verilog''"

text \<open>A thrown value: an instance of \<open>Error\<close> with its message, or anything else.\<close>

datatype thrown = ErrorObject string | NonError json

subsection \<open>\<open>buildPrompt\<close>\<close>

text \<open>The callback of \<open>deliverables.map\<close>: the \<open>switch\<close> on the identifier.\<close>

definition deliverablePhrase :: "string \<Rightarrow> string \<Rightarrow> string" where
  "deliverablePhrase hdlLanguage d =
     (if d = ''rtlCode'' then ''RTL Code in '' @ hdlLanguage
      else if d = ''testbench'' then ''SystemVerilog/UVM Testbench''
      else if d = ''testCases'' then ''Test Cases Description (in Markdown)''
      else if d = ''designSpec'' then ''Design Specification (in Markdown)''
      else d)"

definition deliverableList :: "string \<Rightarrow> string list \<Rightarrow> string" where
  "deliverableList hdlLanguage deliverables = join '', '' (map (deliverablePhrase hdlLanguage) deliverables)"

definition buildPrompt :: "string \<Rightarrow> string \<Rightarrow> string list \<Rightarrow> string" where
  "buildPrompt description hdlLanguage deliverables =
     ''\<newline>'' @
     ''      You are an expert Hardware Design and Verification Engineer AI assistant. Your role is to help users develop, verify, and test digital designs.\<newline>'' @
     ''      Follow best practices for synthesizable, modular, and well-documented code.\<newline>'' @
     ''\<newline>'' @
     ''      User's Design Request:\<newline>'' @
     ''      '' @ [CHR 0x22] @ description @ [CHR 0x22] @ ''\<newline>'' @
     ''\<newline>'' @
     ''      Generation Task:\<newline>'' @
     ''      - Target RTL Language: '' @ hdlLanguage @ ''\<newline>'' @
     ''      - Verification Environment: SystemVerilog with UVM.\<newline>'' @
     ''      - Required Deliverables: '' @ deliverableList hdlLanguage deliverables @ ''.\<newline>'' @
     ''\<newline>'' @
     ''      Instructions:\<newline>'' @
     ''      1.  Analyze the user's request and generate all the required deliverables.\<newline>'' @
     ''      2.  Ensure all generated code is syntactically correct and complete.\<newline>'' @
     ''      3.  For testbenches, create a comprehensive UVM-based environment.\<newline>'' @
     ''      4.  For documentation (like specs or test cases), use Markdown format.\<newline>'' @
     ''      5.  Return the output as a single, valid JSON object that adheres to the provided schema. Do not include any text, markdown formatting, or code blocks before or after the JSON object.\<newline>'' @
     ''      6.  Only generate properties in the JSON for the deliverables that were explicitly requested.\<newline>'' @
     ''    ''"

subsection \<open>\<open>generateHdl\<close>\<close>

text \<open>
  The request handed to \<open>ai.models.generateContent\<close>.  The response schema is the same
  constant object on every call and is left out.
\<close>

record request =
  model :: string
  contents :: string
  responseMimeType :: string

definition generateHdl_request :: "string \<Rightarrow> hdl_language \<Rightarrow> string list \<Rightarrow> request" where
  "generateHdl_request description hdlLanguage deliverables =
     \<lparr> model = ''gemini-2.5-flash'',
       contents = buildPrompt description (language_name hdlLanguage) deliverables,
       responseMimeType = ''application/json'' \<rparr>"

text \<open>
  The assignment \<open>cleanOutput[key] = value\<close> on the ordinary object \<open>cleanOutput\<close>.  For the
  key \<open>__proto__\<close> the assignment reaches the accessor inherited from \<open>Object.prototype\<close>,
  which replaces the prototype (or does nothing) and creates no own property.  Any other
  key overwrites the property in place when the object has it and creates it when it has
  not.
\<close>

definition set_property :: "generated_output \<Rightarrow> string \<Rightarrow> json \<Rightarrow> generated_output" where
  "set_property obj key v =
     (if key = ''__proto__'' then obj
      else if key \<in> set (map fst obj) then AList.update key v obj
      else add_property obj key v)"

text \<open>The body of the \<open>for ... in\<close> loop, run over the keys still to be visited.\<close>

fun filter_loop :: "json \<Rightarrow> string list \<Rightarrow> generated_output \<Rightarrow> generated_output" where
  "filter_loop parsedJson [] cleanOutput = cleanOutput"
| "filter_loop parsedJson (key # keys) cleanOutput =
     filter_loop parsedJson keys
       (case get_property parsedJson key of
          None \<Rightarrow> cleanOutput
        | Some v \<Rightarrow>
            if hasOwnProperty parsedJson key \<and> truthy v
            then set_property cleanOutput key v
            else cleanOutput)"

definition cleanOutput_of :: "json \<Rightarrow> generated_output" where
  "cleanOutput_of parsedJson = filter_loop parsedJson (for_in_keys parsedJson) []"

text \<open>
  How the awaited remote call ends: it rejects with a thrown value, or it resolves to a
  response whose \<open>text\<close> is the given string.
\<close>

datatype remote_outcome = Rejected thrown | Responded string

text \<open>
  The \<open>try\<close> block after the \<open>await\<close>.  \<open>JSON.parse\<close> belongs to the run time and is a
  parameter: \<open>Inl m\<close> is a \<open>SyntaxError\<close> with message \<open>m\<close>, \<open>Inr v\<close> the parsed value.
\<close>

definition try_block :: "(string \<Rightarrow> string + json) \<Rightarrow> remote_outcome \<Rightarrow> thrown + generated_output" where
  "try_block JSON_parse outcome =
     (case outcome of
        Rejected e \<Rightarrow> Inl e
      | Responded text \<Rightarrow>
          (let jsonText = trim text in
           case JSON_parse jsonText of
             Inl m \<Rightarrow> Inl (ErrorObject m)
           | Inr parsedJson \<Rightarrow> Inr (cleanOutput_of parsedJson)))"

text \<open>
  \<open>generateHdl\<close> from the point where the remote call settles: the \<open>catch\<close> clause logs
  whatever was thrown and throws a new \<open>Error\<close> with a fixed message.
\<close>

definition generateHdl_settle :: "(string \<Rightarrow> string + json) \<Rightarrow> remote_outcome \<Rightarrow> thrown + generated_output" where
  "generateHdl_settle JSON_parse outcome =
     (case try_block JSON_parse outcome of
        Inl error \<Rightarrow> Inl (ErrorObject ''The AI model failed to generate a valid response.'')
      | Inr cleanOutput \<Rightarrow> Inr cleanOutput)"


section \<open>The application component\<close>

text \<open>
  The source holds two revisions of \<open>AppComponent\<close>.  They differ in the list of
  deliverables, in the loading messages, in two further form fields handed to the
  service, and in \<open>outputFiles\<close>; the methods \<open>generate\<close>, \<open>toggleDeliverable\<close>, \<open>setActiveTab\<close>,
  \<open>startLoading\<close> and \<open>stopLoading\<close> read the same in both but for the messages.  The
  model follows the revision that calls \<open>generateHdl\<close> with the three arguments the service
  takes.
\<close>

record deliverable =
  id' :: string
  name :: string
  checked :: bool

text \<open>
  The signals and fields of \<open>AppComponent\<close>, followed by the part of the environment the
  component acts on: the interval timers that are running (each with its handle and the
  counter \<open>i\<close> its callback closes over), the number of timer handles handed out so far,
  and the requests sent to the remote model.  \<open>None\<close> stands for \<open>null\<close> in a signal and
  for \<open>undefined\<close> in \<open>loadingInterval\<close>.
\<close>

record app_state =
  description :: string
  hdlLanguage :: hdl_language
  deliverables :: "deliverable list"
  isLoading :: bool
  error :: "string option"
  generatedOutput :: "generated_output option"
  activeTab :: "string option"
  loadingMessage :: string
  loadingInterval :: "nat option"
  intervals :: "(nat \<times> nat) list"
  handles_issued :: nat
  outbound :: "request list"

definition availableDeliverables :: "deliverable list" where
  "availableDeliverables =
     [ \<lparr> id' = ''rtlCode'', name = ''RTL Code'', checked = True \<rparr>,
       \<lparr> id' = ''testbench'', name = ''UVM Testbench'', checked = True \<rparr>,
       \<lparr> id' = ''testCases'', name = ''Test Cases'', checked = False \<rparr>,
       \<lparr> id' = ''designSpec'', name = ''Design Specification'', checked = False \<rparr> ]"

text \<open>The component as its field initialisers leave it, in an environment with no timer and no request.\<close>

definition initial_state :: app_state where
  "initial_state =
     \<lparr> description = ''Design a 4-bit synchronous up-counter with an active-high reset.'',
       hdlLanguage = Verilog,
       deliverables = availableDeliverables,
       isLoading = False,
       error = None,
       generatedOutput = None,
       activeTab = None,
       loadingMessage = ''Initializing AI assistant...'',
       loadingInterval = None,
       intervals = [],
       handles_issued = 0,
       outbound = [] \<rparr>"

definition selectedDeliverables :: "app_state \<Rightarrow> string list" where
  "selectedDeliverables s = map id' (filter checked (deliverables s))"

subsection \<open>Interval timers\<close>

text \<open>
  \<open>setInterval\<close> hands out a handle that was never used before and is greater than zero;
  \<open>clearInterval\<close> removes the timer with the given handle, if there is one.
\<close>

definition setInterval :: "nat \<Rightarrow> app_state \<Rightarrow> nat \<times> app_state" where
  "setInterval i s =
     (let h = Suc (handles_issued s)
      in (h, s\<lparr> intervals := intervals s @ [(h, i)], handles_issued := h \<rparr>))"

definition clearInterval :: "nat \<Rightarrow> app_state \<Rightarrow> app_state" where
  "clearInterval h s = s\<lparr> intervals := filter (\<lambda>t. fst t \<noteq> h) (intervals s) \<rparr>"

definition messages :: "string list" where
  "messages =
     [ ''Synthesizing RTL...'',
       ''Building UVM environment...'',
       ''Generating test cases...'',
       ''Running simulations...'',
       ''Analyzing coverage...'',
       ''Finalizing documentation...'' ]"

text \<open>One firing of the callback installed by \<open>startLoading\<close>; a cleared timer does not fire.\<close>

definition interval_callback :: "nat \<Rightarrow> app_state \<Rightarrow> app_state" where
  "interval_callback h s =
     (case map_of (intervals s) h of
        None \<Rightarrow> s
      | Some i \<Rightarrow>
          (let i' = (i + 1) mod length messages
           in s\<lparr> intervals := AList.update h i' (intervals s),
                 loadingMessage := messages ! i' \<rparr>))"

definition startLoading :: "app_state \<Rightarrow> app_state" where
  "startLoading s =
     (let s1 = s\<lparr> isLoading := True \<rparr>;
          i = 0;
          s2 = s1\<lparr> loadingMessage := messages ! i \<rparr>;
          (h, s3) = setInterval i s2
      in s3\<lparr> loadingInterval := Some h \<rparr>)"

definition stopLoading :: "app_state \<Rightarrow> app_state" where
  "stopLoading s =
     (let s1 = s\<lparr> isLoading := False \<rparr>
      in case loadingInterval s1 of
           None \<Rightarrow> s1
         | Some h \<Rightarrow> if h \<noteq> 0 then clearInterval h s1 else s1)"

subsection \<open>\<open>generate\<close>\<close>

text \<open>
  \<open>generate\<close> runs in two parts.  \<open>generate_begin\<close> is everything up to the \<open>await\<close>: the
  guard, \<open>startLoading\<close>, the two resets and the call of \<open>generateHdl\<close>, which builds the
  prompt and sends the request before it suspends.
\<close>

definition generate_begin :: "app_state \<Rightarrow> app_state" where
  "generate_begin s =
     (if isLoading s \<or> trim (description s) = [] then s
      else
        (let s1 = startLoading s;
             s2 = s1\<lparr> error := None \<rparr>;
             s3 = s2\<lparr> generatedOutput := None \<rparr>
         in s3\<lparr> outbound := outbound s3 @
                  [generateHdl_request (description s3) (hdlLanguage s3) (selectedDeliverables s3)] \<rparr>))"

text \<open>\<open>Object.keys\<close> of the result.\<close>

definition Object_keys :: "generated_output \<Rightarrow> string list" where
  "Object_keys result = map fst result"

text \<open>
  \<open>generate_settle\<close> is the rest of \<open>generate\<close>, run when the promise returned by
  \<open>generateHdl\<close> settles: the remainder of the \<open>try\<close> block when it fulfils, the \<open>catch\<close>
  clause when it rejects, and \<open>finally\<close> in both cases.  \<open>Object.keys(result)[0]\<close> is
  \<open>undefined\<close> for an object without keys, and both \<open>undefined\<close> and the empty string are
  falsy.
\<close>

definition generate_settle :: "thrown + generated_output \<Rightarrow> app_state \<Rightarrow> app_state" where
  "generate_settle settled s =
     stopLoading
       (case settled of
          Inr result \<Rightarrow>
            (let s1 = s\<lparr> generatedOutput := Some result \<rparr>
             in case Object_keys result of
                  [] \<Rightarrow> s1
                | firstKey # _ \<Rightarrow> if firstKey \<noteq> [] then s1\<lparr> activeTab := Some firstKey \<rparr> else s1)
        | Inl err \<Rightarrow>
            (let errorMessage =
                   (case err of
                      ErrorObject m \<Rightarrow> m
                    | NonError _ \<Rightarrow> ''An unknown error occurred. Please check the console for details.'')
             in s\<lparr> error := Some (''Failed to generate HDL content. '' @ errorMessage) \<rparr>))"

text \<open>The second part of \<open>generate\<close> with the service in place.\<close>

definition generate_resume :: "(string \<Rightarrow> string + json) \<Rightarrow> remote_outcome \<Rightarrow> app_state \<Rightarrow> app_state" where
  "generate_resume JSON_parse outcome s = generate_settle (generateHdl_settle JSON_parse outcome) s"

subsection \<open>The other methods\<close>

text \<open>
  \<open>toggleDeliverable\<close>.  Outside the bounds of the list \<open>updated[index]\<close> is \<open>undefined\<close>, reading
  its \<open>checked\<close> property throws a \<open>TypeError\<close> inside the update callback, and the signal
  keeps its value: the result is \<open>None\<close>.
\<close>

definition toggleDeliverable :: "int \<Rightarrow> app_state \<Rightarrow> app_state option" where
  "toggleDeliverable index s =
     (let current = deliverables s
      in if 0 \<le> index \<and> index < int (length current)
         then
           (let updated = current;
                entry = updated ! nat index
            in Some (s\<lparr> deliverables := updated[nat index := entry\<lparr> checked := \<not> checked entry \<rparr>] \<rparr>))
         else None)"

definition setActiveTab :: "string \<Rightarrow> app_state \<Rightarrow> app_state" where
  "setActiveTab key s = s\<lparr> activeTab := Some key \<rparr>"

subsection \<open>What can happen while a call is pending\<close>

text \<open>
  Between the two parts of \<open>generate\<close> the event loop may run any of: a further call of
  \<open>generate\<close>, \<open>toggleDeliverable\<close>, \<open>setActiveTab\<close>, a change of the two form fields, and a
  firing of an interval timer.
\<close>

datatype event =
    Generate
  | ToggleDeliverable int
  | SetActiveTab string
  | SetDescription string
  | SetHdlLanguage hdl_language
  | IntervalFires nat

fun react :: "event \<Rightarrow> app_state \<Rightarrow> app_state" where
  "react Generate s = generate_begin s"
| "react (ToggleDeliverable index) s = (case toggleDeliverable index s of None \<Rightarrow> s | Some s' \<Rightarrow> s')"
| "react (SetActiveTab key) s = setActiveTab key s"
| "react (SetDescription d) s = s\<lparr> description := d \<rparr>"
| "react (SetHdlLanguage l) s = s\<lparr> hdlLanguage := l \<rparr>"
| "react (IntervalFires h) s = interval_callback h s"

definition run :: "event list \<Rightarrow> app_state \<Rightarrow> app_state" where
  "run es s = fold react es s"


section \<open>Notions used to state the properties\<close>

text \<open>
  A well-formed file record (\<open>HdlFile\<close>): an object with exactly the three fields
  \<open>filename\<close>, \<open>language\<close> and \<open>code\<close>, each a non-empty string.
\<close>

definition text_field :: "(string \<times> json) list \<Rightarrow> string \<Rightarrow> bool" where
  "text_field fs k = (case map_of fs k of Some (JString t) \<Rightarrow> t \<noteq> [] | _ \<Rightarrow> False)"

definition is_file_record :: "json \<Rightarrow> bool" where
  "is_file_record v =
     (case v of
        JObject fs \<Rightarrow>
          distinct (map fst fs) \<and>
          set (map fst fs) = {''filename'', ''language'', ''code''} \<and>
          text_field fs ''filename'' \<and> text_field fs ''language'' \<and> text_field fs ''code''
      | _ \<Rightarrow> False)"

definition sample_record :: json where
  "sample_record =
     JObject [(''filename'', JString ''a''), (''language'', JString ''Verilog''), (''code'', JString ''...'')]"

text \<open>
  The reply \<open>{"rtlCode": {...}, "testbench": true, "testCases": null}\<close> after parsing.
\<close>

definition example_properties :: "(string \<times> json) list" where
  "example_properties =
     [(''rtlCode'', sample_record), (''testbench'', JBool True), (''testCases'', JNull)]"

definition example_reply :: json where
  "example_reply = JObject example_properties"

text \<open>
  A stand-in for \<open>JSON.parse\<close> on which examples are run.  It parses the two texts \<open>{}\<close> and
  \<open>null\<close> and rejects every other text, among them \<open>not json\<close>.
\<close>

definition sample_JSON_parse :: "string \<Rightarrow> string + json" where
  "sample_JSON_parse text =
     (if text = ''{}'' then Inr (JObject [])
      else if text = ''null'' then Inr JNull
      else Inl ''Unexpected token'')"

text \<open>A component that shows the result and the error of an earlier call.\<close>

definition stale_state :: app_state where
  "stale_state =
     initial_state \<lparr> error := Some ''old error'',
       generatedOutput := Some [(''rtlCode'', sample_record)],
       activeTab := Some ''rtlCode'' \<rparr>"


section \<open>Properties of the generator service\<close>

subsection \<open>The filter loop\<close>

lemma add_property_last:
  assumes "enumeration_order (map fst obj @ [key])"
  shows "add_property obj key v = obj @ [(key, v)]"
proof -
  from assms have "\<forall>p \<in> set obj. enumerated_before (fst p) key"
    by (auto simp: enumeration_order_def sorted_wrt_append)
  then show ?thesis
    by (simp add: add_property_def)
qed

lemma set_property_last:
  "enumeration_order (map fst obj @ [key]) \<Longrightarrow>
   set_property obj key v = (if key = ''__proto__'' then obj else obj @ [(key, v)])"
  using add_property_last [of obj key v]
  by (auto simp: set_property_def enumeration_order_def)

lemma enumeration_order_prefix:
  "enumeration_order (xs @ y # ys) \<Longrightarrow> enumeration_order (xs @ [y])"
  by (auto simp: enumeration_order_def sorted_wrt_append)

lemma enumeration_order_remove:
  "enumeration_order (xs @ y # ys) \<Longrightarrow> enumeration_order (xs @ ys)"
  by (auto simp: enumeration_order_def sorted_wrt_append)

lemma filter_loop_object:
  assumes d: "distinct (map fst kvs)"
  shows "set rest \<subseteq> set kvs \<Longrightarrow> enumeration_order (map fst acc @ map fst rest) \<Longrightarrow>
         filter_loop (JObject kvs) (map fst rest) acc =
           acc @ filter (\<lambda>(k, v). truthy v \<and> k \<noteq> ''__proto__'') rest"
proof (induction rest arbitrary: acc)
  case Nil
  then show ?case by simp
next
  case (Cons p rest)
  obtain k v where p: "p = (k, v)" by (cases p)
  from Cons.prems p have mem: "(k, v) \<in> set kvs" by simp
  with d have look: "get_property (JObject kvs) k = Some v"
    by (simp add: get_property_def)
  from mem have own: "hasOwnProperty (JObject kvs) k"
    by (force simp: hasOwnProperty_def)
  from Cons.prems p have rest: "set rest \<subseteq> set kvs" by simp
  from Cons.prems p have ord: "enumeration_order (map fst acc @ k # map fst rest)" by simp
  show ?case
  proof (cases "truthy v \<and> k \<noteq> ''__proto__''")
    case True
    from ord have "enumeration_order (map fst acc @ [k])"
      by (rule enumeration_order_prefix)
    with True have appended: "set_property acc k v = acc @ [(k, v)]"
      by (simp add: set_property_last)
    from ord have "enumeration_order (map fst (acc @ [(k, v)]) @ map fst rest)" by simp
    from Cons.IH [OF rest this] True look own appended p show ?thesis by simp
  next
    case False
    from ord have "enumeration_order (map fst acc @ map fst rest)"
      by (rule enumeration_order_remove)
    from Cons.IH [OF rest this] False look own p show ?thesis
      by (auto simp: set_property_def)
  qed
qed

lemma cleanOutput_of_object:
  assumes "enumeration_order (map fst kvs)"
  shows "cleanOutput_of (JObject kvs) = filter (\<lambda>(k, v). truthy v \<and> k \<noteq> ''__proto__'') kvs"
proof -
  from assms have "distinct (map fst kvs)" by (simp add: enumeration_order_def)
  from filter_loop_object [OF this, of kvs "[]"] assms show ?thesis
    by (simp add: cleanOutput_of_def for_in_keys_def)
qed

lemma enumeration_order_filter:
  "enumeration_order (map fst kvs) \<Longrightarrow> enumeration_order (map fst (filter P kvs))"
proof (induction kvs)
  case Nil
  then show ?case by simp
next
  case (Cons p kvs)
  from Cons.prems have tl: "enumeration_order (map fst kvs)"
    by (simp add: enumeration_order_def)
  from Cons.prems have "fst p \<notin> set (map fst kvs)" "\<forall>k \<in> set (map fst kvs). enumerated_before (fst p) k"
    by (simp_all add: enumeration_order_def)
  then have "fst p \<notin> set (map fst (filter P kvs))"
    "\<forall>k \<in> set (map fst (filter P kvs)). enumerated_before (fst p) k"
    by auto
  with Cons.IH [OF tl] show ?case
    by (simp add: enumeration_order_def)
qed

lemma is_file_record_truthy: "is_file_record v \<Longrightarrow> truthy v"
  by (cases v) (simp_all add: is_file_record_def)

lemma is_file_record_sample: "is_file_record sample_record"
  by (simp add: is_file_record_def sample_record_def text_field_def insert_commute)

lemma truthy_sample: "truthy sample_record"
  by (simp add: sample_record_def)

lemmas run_order =
  enumeration_order_def enumerated_before_def is_array_index_def is_digit_def index_value_def

lemmas run_filter =
  cleanOutput_of_def for_in_keys_def get_property_def hasOwnProperty_def set_property_def
  add_property_def Object_keys_def run_order


subsection \<open>What the filter keeps\<close>

text \<open>
  Claim C1, as the code has it.  For a parsed reply object (its properties listed in
  enumeration order, as \<open>JSON.parse\<close> leaves them) and a key other than \<open>__proto__\<close>, the
  output of \<open>generateHdl\<close> has the key exactly when the key's value in the reply is truthy,
  and the key then carries the value it has in the reply.  Whether the value is an object
  plays no part.
\<close>

theorem cleanOutput_keeps_truthy_values:
  "enumeration_order (map fst kvs) \<and> key \<noteq> ''__proto__'' \<longrightarrow>
     (key \<in> set (Object_keys (cleanOutput_of (JObject kvs))) \<longleftrightarrow>
        (\<exists>v. get_property (JObject kvs) key = Some v \<and> truthy v)) \<and>
     (\<forall>v. map_of (cleanOutput_of (JObject kvs)) key = Some v \<longrightarrow>
        get_property (JObject kvs) key = Some v)"
proof
  assume a: "enumeration_order (map fst kvs) \<and> key \<noteq> ''__proto__''"
  then have e: "enumeration_order (map fst kvs)" and k: "key \<noteq> ''__proto__''"
    by simp_all
  from e have d: "distinct (map fst kvs)"
    by (simp add: enumeration_order_def)
  let ?P = "\<lambda>(k, v). truthy v \<and> k \<noteq> ''__proto__''"
  have out: "cleanOutput_of (JObject kvs) = filter ?P kvs"
    using e by (rule cleanOutput_of_object)
  have keys: "key \<in> set (Object_keys (filter ?P kvs)) \<longleftrightarrow>
      (\<exists>v. get_property (JObject kvs) key = Some v \<and> truthy v)"
    using d k by (auto simp: Object_keys_def get_property_def image_iff)
  have vals: "map_of (filter ?P kvs) key = Some v \<longrightarrow> get_property (JObject kvs) key = Some v" for v
    using d by (auto simp: get_property_def dest!: map_of_SomeD)
  show "(key \<in> set (Object_keys (cleanOutput_of (JObject kvs))) \<longleftrightarrow>
        (\<exists>v. get_property (JObject kvs) key = Some v \<and> truthy v)) \<and>
     (\<forall>v. map_of (cleanOutput_of (JObject kvs)) key = Some v \<longrightarrow>
        get_property (JObject kvs) key = Some v)"
    using out keys vals by simp
qed

theorem cleanOutput_keeps_truthy_values_witness:
  "enumeration_order (map fst example_properties) \<and> ''testbench'' \<noteq> ''__proto__'' \<and>
   ''testbench'' \<in> set (Object_keys (cleanOutput_of (JObject example_properties))) \<and>
   ''testCases'' \<notin> set (Object_keys (cleanOutput_of (JObject example_properties))) \<and>
   map_of (cleanOutput_of (JObject example_properties)) ''rtlCode'' = Some sample_record"
  using cleanOutput_keeps_truthy_values [of example_properties "''testbench''"]
    cleanOutput_keeps_truthy_values [of example_properties "''testCases''"]
  by (simp add: example_properties_def truthy_sample run_filter)

text \<open>
  Claim C1, as stated, fails on the reply
  \<open>{"rtlCode": {...}, "testbench": true, "testCases": null}\<close>: the value \<open>true\<close> is truthy and
  is not an object, and the output has the keys \<open>rtlCode\<close> and \<open>testbench\<close>.
\<close>

theorem cleanOutput_passes_boolean_true:
  "''testbench'' \<in> set (Object_keys (cleanOutput_of example_reply)) \<and>
   get_property example_reply ''testbench'' = Some (JBool True) \<and>
   truthy (JBool True) \<and> \<not> typeof_object (JBool True) \<and>
   Object_keys (cleanOutput_of example_reply) = [''rtlCode'', ''testbench'']"
  by (simp add: example_reply_def example_properties_def truthy_sample run_filter)

subsection \<open>Clean input\<close>

text \<open>
  Away from the key \<open>__proto__\<close> the loop copies every well-formed file record.  For a
  parsed reply object (its properties listed in enumeration order) none of whose keys is
  \<open>__proto__\<close> and whose every top-level value is a well-formed file record, the output
  equals the input: the same keys, in the same order, with the same values.
\<close>

theorem cleanOutput_identity_on_records:
  assumes "enumeration_order (map fst kvs)"
    and "''__proto__'' \<notin> set (map fst kvs)"
    and "\<forall>v \<in> set (map snd kvs). is_file_record v"
  shows "cleanOutput_of (JObject kvs) = kvs"
proof -
  have "filter (\<lambda>(k, v). truthy v \<and> k \<noteq> ''__proto__'') kvs = kvs"
    using assms(2,3) by (force simp: filter_id_conv is_file_record_truthy)
  with assms(1) show ?thesis by (simp add: cleanOutput_of_object)
qed

theorem cleanOutput_identity_on_records_witness:
  "enumeration_order (map fst [(''testbench'', sample_record), (''rtlCode'', sample_record)]) \<and>
   ''__proto__'' \<notin> set (map fst [(''testbench'', sample_record), (''rtlCode'', sample_record)]) \<and>
   is_file_record sample_record \<and>
   cleanOutput_of (JObject [(''testbench'', sample_record), (''rtlCode'', sample_record)]) =
     [(''testbench'', sample_record), (''rtlCode'', sample_record)]"
  using cleanOutput_identity_on_records [of "[(''testbench'', sample_record), (''rtlCode'', sample_record)]"]
  by (simp add: is_file_record_sample run_order)

text \<open>
  Claim C5.  The code breaks the claim at the key \<open>__proto__\<close>.  The reply
  \<open>{"__proto__": {...}}\<close> is an object whose only value is a well-formed file record, and
  the claim has the output equal to it.  The loop makes for this key the copy it makes for
  every other key, but the assignment to \<open>cleanOutput["__proto__"]\<close> creates no property: the
  output has no key.  In the reply \<open>{"rtlCode": {...}, "__proto__": {...}}\<close> only \<open>rtlCode\<close>
  is kept.
\<close>

theorem cleanOutput_drops_proto_key:
  "is_file_record sample_record \<and>
   enumeration_order (map fst [(''__proto__'', sample_record)]) \<and>
   cleanOutput_of (JObject [(''__proto__'', sample_record)]) = [] \<and>
   cleanOutput_of (JObject [(''__proto__'', sample_record)]) \<noteq> [(''__proto__'', sample_record)] \<and>
   enumeration_order (map fst [(''rtlCode'', sample_record), (''__proto__'', sample_record)]) \<and>
   cleanOutput_of (JObject [(''rtlCode'', sample_record), (''__proto__'', sample_record)]) =
     [(''rtlCode'', sample_record)]"
  by (simp add: is_file_record_sample truthy_sample run_filter)

subsection \<open>Parse failures\<close>

text \<open>
  Claim C3.  Given the reply text, \<open>generateHdl\<close> throws exactly when \<open>JSON.parse\<close> throws on
  the trimmed text; what it throws is its own \<open>Error\<close> with the fixed message; and when
  the trimmed text parses, it returns the filtered object.
\<close>

theorem generateHdl_throws_iff_parse_throws:
  "generateHdl_settle JSON_parse (Responded rawText) =
     (case JSON_parse (trim rawText) of
        Inl m \<Rightarrow> Inl (ErrorObject ''The AI model failed to generate a valid response.'')
      | Inr parsedJson \<Rightarrow> Inr (cleanOutput_of parsedJson)) \<and>
   isl (generateHdl_settle JSON_parse (Responded rawText)) = isl (JSON_parse (trim rawText))"
  by (simp add: generateHdl_settle_def try_block_def split: sum.splits)

theorem generateHdl_throws_iff_parse_throws_witness:
  "generateHdl_settle sample_JSON_parse (Responded '' not json '') =
     Inl (ErrorObject ''The AI model failed to generate a valid response.'') \<and>
   generateHdl_settle sample_JSON_parse (Responded ''  {}\<newline>'') = Inr []"
  using generateHdl_throws_iff_parse_throws [of sample_JSON_parse "'' not json ''"]
    generateHdl_throws_iff_parse_throws [of sample_JSON_parse "''  {}\<newline>''"]
  by (simp add: sample_JSON_parse_def trim_def is_js_space_def run_filter)


subsection \<open>The prompt\<close>

lemma occurs_at_here: "occurs_at d (d @ post) 0"
  by (simp add: occurs_at_def)

lemma occurs_at_Cons_Suc: "occurs_at d (c # hay) (Suc i) = occurs_at d hay i"
  by (simp add: occurs_at_def)

lemma occurs_at_Cons_numeral: "occurs_at d (c # hay) (numeral k) = occurs_at d hay (pred_numeral k)"
  by (simp add: numeral_eq_Suc occurs_at_Cons_Suc)

lemma buildPrompt_description_at: "occurs_at d (buildPrompt d l ds) 270"
  by (simp add: buildPrompt_def occurs_at_Cons_numeral occurs_at_Cons_Suc occurs_at_here)

lemma occurrences_two:
  assumes "occurs_at n h i" "occurs_at n h j" "i \<noteq> j"
  shows "length (occurrences n h) \<noteq> 1"
proof
  assume one: "length (occurrences n h) = 1"
  have "i \<in> set (occurrences n h)" "j \<in> set (occurrences n h)"
  proof -
    from assms(1) have "i < Suc (length h)" by (simp add: occurs_at_def)
    with assms(1) show "i \<in> set (occurrences n h)" by (simp add: occurrences_def del: upt_Suc)
    from assms(2) have "j < Suc (length h)" by (simp add: occurs_at_def)
    with assms(2) show "j \<in> set (occurrences n h)" by (simp add: occurrences_def del: upt_Suc)
  qed
  moreover from one obtain x where "occurrences n h = [x]"
    by (cases "occurrences n h") auto
  ultimately show False using assms(3) by simp
qed

lemma buildPrompt_deliverables_clause:
  "\<exists>pre post. buildPrompt d l ds =
     pre @ ''- Required Deliverables: '' @ join '', '' (map (deliverablePhrase l) ds) @ ''.'' @ post"
  unfolding buildPrompt_def deliverableList_def
  apply (rule exI[of _ "''\<newline>'' @
     ''      You are an expert Hardware Design and Verification Engineer AI assistant. Your role is to help users develop, verify, and test digital designs.\<newline>'' @
     ''      Follow best practices for synthesizable, modular, and well-documented code.\<newline>'' @
     ''\<newline>'' @
     ''      User's Design Request:\<newline>'' @
     ''      '' @ [CHR 0x22] @ d @ [CHR 0x22] @ ''\<newline>'' @
     ''\<newline>'' @
     ''      Generation Task:\<newline>'' @
     ''      - Target RTL Language: '' @ l @ ''\<newline>'' @
     ''      - Verification Environment: SystemVerilog with UVM.\<newline>'' @
     ''      ''"])
  apply (rule exI)
  apply (simp only: append_assoc append_Cons append_Nil)
  done

lemma occurs_at_nth:
  "occurs_at n h i \<longleftrightarrow> i + length n \<le> length h \<and> (\<forall>k < length n. h ! (i + k) = n ! k)"
proof -
  have "take (length n) (drop i h) = n \<longleftrightarrow> (\<forall>k < length n. h ! (i + k) = n ! k)"
    if "i + length n \<le> length h"
    using that by (simp add: list_eq_iff_nth_eq min_absorb2)
  then show ?thesis
    unfolding occurs_at_def by blast
qed

lemma first_index:
  assumes "c \<in> set d"
  obtains k where "k < length d" "d ! k = c" "\<forall>j < k. d ! j \<noteq> c"
proof -
  from assms obtain ys zs where d: "d = ys @ c # zs" and ys: "c \<notin> set ys"
    using split_list_first [of c d] by blast
  have 1: "length ys < length d" using d by simp
  have 2: "d ! length ys = c" using d by simp
  have 3: "\<forall>j < length ys. d ! j \<noteq> c"
  proof (intro allI impI)
    fix j assume j: "j < length ys"
    then have "ys ! j \<in> set ys" by (rule nth_mem)
    with ys have "ys ! j \<noteq> c" by auto
    with j d show "d ! j \<noteq> c" by (simp add: nth_append)
  qed
  from 1 2 3 that show ?thesis by blast
qed

lemma last_index:
  assumes "c \<in> set d"
  obtains k where "k < length d" "d ! k = c" "\<forall>j < length d. k < j \<longrightarrow> d ! j \<noteq> c"
proof -
  from assms have "c \<in> set (rev d)" by simp
  then obtain m where m: "m < length (rev d)" "rev d ! m = c" "\<forall>j < m. rev d ! j \<noteq> c"
    by (rule first_index)
  let ?k = "length d - Suc m"
  from m(1) have k: "?k < length d" by simp
  from m(1,2) have v: "d ! ?k = c" by (simp add: rev_nth)
  have "d ! j \<noteq> c" if "j < length d" "?k < j" for j
  proof -
    from that m(1) have "length d - Suc j < m" by arith
    with m(3) have "rev d ! (length d - Suc j) \<noteq> c" by blast
    moreover from that have "rev d ! (length d - Suc j) = d ! j"
      by (simp add: rev_nth)
    ultimately show ?thesis by simp
  qed
  with k v that show ?thesis by blast
qed

lemma only_slot:
  assumes c: "c \<in> set d" and pre: "c \<notin> set pre" and post: "c \<notin> set post"
    and occ: "occurs_at d (pre @ d @ post) i"
  shows "i = length pre"
proof -
  let ?h = "pre @ d @ post"
  let ?n = "length pre"
  from occ have len: "i + length d \<le> length ?h" and eq: "\<forall>k < length d. ?h ! (i + k) = d ! k"
    by (simp_all add: occurs_at_nth)
  have slot: "?n \<le> j \<and> j < ?n + length d \<and> d ! (j - ?n) = c" if "j < length ?h" "?h ! j = c" for j
  proof -
    have a: "\<not> j < ?n"
    proof
      assume "j < ?n"
      with that(2) have "pre ! j = c" by (simp add: nth_append)
      moreover from \<open>j < ?n\<close> have "pre ! j \<in> set pre" by (rule nth_mem)
      ultimately show False using pre by simp
    qed
    have b: "j < ?n + length d"
    proof (rule ccontr)
      assume nb: "\<not> j < ?n + length d"
      with a have "\<not> j - ?n < length d" by arith
      with a that(2) have "post ! (j - ?n - length d) = c" by (simp add: nth_append)
      then have "post ! (j - (?n + length d)) = c" by simp
      moreover from nb that(1) have "j - (?n + length d) < length post" by simp
      then have "post ! (j - (?n + length d)) \<in> set post" by (rule nth_mem)
      ultimately show False using post by simp
    qed
    from a b have "j - ?n < length d" by arith
    with a b that(2) show ?thesis by (simp add: nth_append)
  qed
  obtain k0 where k0: "k0 < length d" "d ! k0 = c" "\<forall>j < k0. d ! j \<noteq> c"
    using c by (rule first_index)
  obtain k1 where k1: "k1 < length d" "d ! k1 = c" "\<forall>j < length d. k1 < j \<longrightarrow> d ! j \<noteq> c"
    using c by (rule last_index)
  show ?thesis
  proof (rule ccontr)
    assume ne: "i \<noteq> ?n"
    show False
    proof (cases "i < ?n")
      case True
      from eq k0 have "?h ! (i + k0) = c" by simp
      moreover from len k0(1) have "i + k0 < length ?h" by simp
      ultimately have s: "?n \<le> i + k0" "d ! (i + k0 - ?n) = c" using slot by blast+
      from True s(1) have "i + k0 - ?n < k0" by arith
      with k0(3) s(2) show False by blast
    next
      case False
      with ne have gt: "?n < i" by simp
      from eq k1 have "?h ! (i + k1) = c" by simp
      moreover from len k1(1) have "i + k1 < length ?h" by simp
      ultimately have s: "i + k1 < ?n + length d" "d ! (i + k1 - ?n) = c" using slot by blast+
      from gt s(1) have "i + k1 - ?n < length d" "k1 < i + k1 - ?n" by arith+
      with k1(3) s(2) show False by blast
    qed
  qed
qed

lemma filter_only:
  "filter (\<lambda>x. x = n) [0..<m] = (if n < m then [n] else [])"
  by (induction m) auto

lemma occurrences_only_slot:
  assumes "c \<in> set d" "c \<notin> set pre" "c \<notin> set post"
  shows "occurrences d (pre @ d @ post) = [length pre]"
proof -
  have "occurs_at d (pre @ d @ post) i \<longleftrightarrow> i = length pre" for i
    using only_slot [OF assms] by (auto simp: occurs_at_def)
  then have "filter (occurs_at d (pre @ d @ post)) xs = filter (\<lambda>x. x = length pre) xs" for xs
    by (intro filter_cong) simp_all
  then have "occurrences d (pre @ d @ post) = filter (\<lambda>x. x = length pre) [0..<Suc (length (pre @ d @ post))]"
    unfolding occurrences_def .
  then show ?thesis
    by (simp only: filter_only) simp
qed

lemma occurs_at_Cons_same: "occurs_at (c # n) (c' # h) 0 \<longleftrightarrow> c = c' \<and> occurs_at n h 0"
  by (auto simp: occurs_at_def)

lemma occurs_at_append_same: "occurs_at (d @ n) (d @ h) 0 \<longleftrightarrow> occurs_at n h 0"
  by (auto simp: occurs_at_def)

lemma occurs_at_Nil: "occurs_at [] h 0"
  by (simp add: occurs_at_def)

lemma occurs_at_shift: "occurs_at n h i \<Longrightarrow> occurs_at n (pre @ h) (length pre + i)"
  by (simp add: occurs_at_def)

lemma buildPrompt_slot:
  "buildPrompt d l ds = take 270 (buildPrompt [] l ds) @ d @ drop 270 (buildPrompt [] l ds)"
  by (simp add: buildPrompt_def)

lemma buildPrompt_quoted:
  "occurs_at (''User's Design Request:\<newline>      '' @ [CHR 0x22] @ d @ [CHR 0x22]) (buildPrompt d l ds) 240"
  by (simp add: buildPrompt_def occurs_at_Cons_numeral occurs_at_Cons_Suc occurs_at_Cons_same
      occurs_at_append_same occurs_at_Nil)

lemma buildPrompt_prefix_length: "length (take 270 (buildPrompt [] l ds)) = 270"
  by (simp add: buildPrompt_def)

lemma buildPrompt_list_slot:
  "buildPrompt d l ds =
     take (415 + length d + length l) (buildPrompt d l []) @ deliverableList l ds @
     drop (415 + length d + length l) (buildPrompt d l [])"
proof -
  define A where "A = ''\<newline>'' @
     ''      You are an expert Hardware Design and Verification Engineer AI assistant. Your role is to help users develop, verify, and test digital designs.\<newline>'' @
     ''      Follow best practices for synthesizable, modular, and well-documented code.\<newline>'' @
     ''\<newline>'' @
     ''      User's Design Request:\<newline>'' @
     ''      '' @ [CHR 0x22] @ d @ [CHR 0x22] @ ''\<newline>'' @
     ''\<newline>'' @
     ''      Generation Task:\<newline>'' @
     ''      - Target RTL Language: '' @ l @ ''\<newline>'' @
     ''      - Verification Environment: SystemVerilog with UVM.\<newline>'' @
     ''      - Required Deliverables: ''"
  have len: "length A = 415 + length d + length l"
    by (simp add: A_def)
  obtain B where B: "\<And>x. buildPrompt d l x = A @ deliverableList l x @ B"
    unfolding buildPrompt_def A_def by (simp only: append_assoc)
  have "buildPrompt d l [] = A @ B"
    using B [of "[]"] by (simp add: deliverableList_def)
  with len have "take (415 + length d + length l) (buildPrompt d l []) = A"
    "drop (415 + length d + length l) (buildPrompt d l []) = B"
    by simp_all
  with B [of ds] show ?thesis by simp
qed

lemma buildPrompt_clause_at:
  "occurs_at (''- Required Deliverables: '' @ deliverableList l ds @ ''.'') (buildPrompt d l ds)
     (390 + length d + length l)"
proof -
  define A where "A = ''\<newline>'' @
     ''      You are an expert Hardware Design and Verification Engineer AI assistant. Your role is to help users develop, verify, and test digital designs.\<newline>'' @
     ''      Follow best practices for synthesizable, modular, and well-documented code.\<newline>'' @
     ''\<newline>'' @
     ''      User's Design Request:\<newline>'' @
     ''      '' @ [CHR 0x22] @ d @ [CHR 0x22] @ ''\<newline>'' @
     ''\<newline>'' @
     ''      Generation Task:\<newline>'' @
     ''      - Target RTL Language: '' @ l @ ''\<newline>'' @
     ''      - Verification Environment: SystemVerilog with UVM.\<newline>'' @
     ''      ''"
  have len: "length A = 390 + length d + length l"
    by (simp add: A_def)
  obtain B where B: "buildPrompt d l ds = A @ (''- Required Deliverables: '' @ deliverableList l ds @ ''.'') @ B"
    unfolding buildPrompt_def A_def by (simp only: append_assoc append_Cons append_Nil)
  have "occurs_at (''- Required Deliverables: '' @ deliverableList l ds @ ''.'')
          (A @ (''- Required Deliverables: '' @ deliverableList l ds @ ''.'') @ B) (length A + 0)"
    by (intro occurs_at_shift) (simp add: occurs_at_def)
  with B len show ?thesis by simp
qed

lemma buildPrompt_once:
  assumes "c \<in> set d" "c \<notin> set (buildPrompt [] l ds)"
  shows "occurrences d (buildPrompt d l ds) = [270]"
proof -
  let ?pre = "take 270 (buildPrompt [] l ds)" and ?post = "drop 270 (buildPrompt [] l ds)"
  from assms(2) have "c \<notin> set ?pre" "c \<notin> set ?post"
    by (auto dest: in_set_takeD in_set_dropD)
  with assms(1) have "occurrences d (?pre @ d @ ?post) = [length ?pre]"
    by (rule occurrences_only_slot)
  then show ?thesis
    by (simp only: buildPrompt_slot [symmetric] buildPrompt_prefix_length)
qed

text \<open>
  Claim C2, as the code has it.  For every description, language and list of deliverable
  identifiers, \<open>buildPrompt\<close> interpolates the description exactly once: the prompt is the
  prompt for the empty description with the description inserted at position 270, and
  the 270 characters before it are fixed text.  The description stands there directly
  between the double quotes that follow \<open>User's Design Request:\<close>.  As a piece of text it
  occurs at position 270, and at no other position when it has a character that occurs
  nowhere else in the prompt.  The list of deliverables is interpolated once as well: at
  position 390 plus the lengths of the description and the language the prompt has the
  clause \<open>- Required Deliverables: \<close> followed by the resolved phrases joined with \<open>, \<close> and a
  full stop.  There is one phrase per identifier, in the order of the list: each of the
  four known identifiers resolves to its fixed phrase and any other identifier to itself.
\<close>

theorem buildPrompt_description_and_deliverables:
  "buildPrompt d l ds = take 270 (buildPrompt [] l ds) @ d @ drop 270 (buildPrompt [] l ds) \<and>
   take 270 (buildPrompt [] l ds) = take 270 (buildPrompt [] [] []) \<and>
   length (take 270 (buildPrompt [] l ds)) = 270 \<and>
   occurs_at d (buildPrompt d l ds) 270 \<and>
   occurs_at (''User's Design Request:\<newline>      '' @ [CHR 0x22] @ d @ [CHR 0x22]) (buildPrompt d l ds) 240 \<and>
   ((\<exists>c \<in> set d. c \<notin> set (buildPrompt [] l ds)) \<longrightarrow> occurrences d (buildPrompt d l ds) = [270]) \<and>
   buildPrompt d l ds =
     take (415 + length d + length l) (buildPrompt d l []) @
     join '', '' (map (deliverablePhrase l) ds) @
     drop (415 + length d + length l) (buildPrompt d l []) \<and>
   occurs_at (''- Required Deliverables: '' @ join '', '' (map (deliverablePhrase l) ds) @ ''.'')
     (buildPrompt d l ds) (390 + length d + length l) \<and>
   (\<exists>pre post. buildPrompt d l ds =
      pre @ ''- Required Deliverables: '' @ join '', '' (map (deliverablePhrase l) ds) @ ''.'' @ post) \<and>
   length (map (deliverablePhrase l) ds) = length ds \<and>
   deliverablePhrase l ''rtlCode'' = ''RTL Code in '' @ l \<and>
   deliverablePhrase l ''testbench'' = ''SystemVerilog/UVM Testbench'' \<and>
   deliverablePhrase l ''testCases'' = ''Test Cases Description (in Markdown)'' \<and>
   deliverablePhrase l ''designSpec'' = ''Design Specification (in Markdown)'' \<and>
   (x \<notin> {''rtlCode'', ''testbench'', ''testCases'', ''designSpec''} \<longrightarrow> deliverablePhrase l x = x)"
proof -
  have fixed: "take 270 (buildPrompt [] l ds) = take 270 (buildPrompt [] [] [])"
    by (simp add: buildPrompt_def)
  have once: "(\<exists>c \<in> set d. c \<notin> set (buildPrompt [] l ds)) \<longrightarrow> occurrences d (buildPrompt d l ds) = [270]"
    using buildPrompt_once [of _ d l ds] by blast
  have phrases: "deliverablePhrase l ''rtlCode'' = ''RTL Code in '' @ l"
    "deliverablePhrase l ''testbench'' = ''SystemVerilog/UVM Testbench''"
    "deliverablePhrase l ''testCases'' = ''Test Cases Description (in Markdown)''"
    "deliverablePhrase l ''designSpec'' = ''Design Specification (in Markdown)''"
    "x \<notin> {''rtlCode'', ''testbench'', ''testCases'', ''designSpec''} \<longrightarrow> deliverablePhrase l x = x"
    by (simp_all add: deliverablePhrase_def)
  note parts =
    buildPrompt_slot [of d l ds] fixed buildPrompt_prefix_length [of l ds]
    buildPrompt_description_at [of d l ds] buildPrompt_quoted [of d l ds] once
    buildPrompt_list_slot [of d l ds, unfolded deliverableList_def]
    buildPrompt_clause_at [of l ds d, unfolded deliverableList_def]
    buildPrompt_deliverables_clause [of d l ds] length_map [of "deliverablePhrase l" ds] phrases
  show ?thesis
    by (intro conjI) (rule parts)+
qed

theorem buildPrompt_description_and_deliverables_witness:
  "CHR ''#'' \<in> set ''counter #7'' \<and>
   CHR ''#'' \<notin> set (buildPrompt [] ''VHDL'' [''testbench'', ''waveform'', ''rtlCode'']) \<and>
   occurrences ''counter #7'' (buildPrompt ''counter #7'' ''VHDL'' [''testbench'', ''waveform'', ''rtlCode'']) = [270] \<and>
   occurs_at ''counter #7'' (buildPrompt ''counter #7'' ''VHDL'' [''testbench'', ''waveform'', ''rtlCode'']) 270 \<and>
   ''waveform'' \<notin> {''rtlCode'', ''testbench'', ''testCases'', ''designSpec''} \<and>
   deliverablePhrase ''VHDL'' ''waveform'' = ''waveform'' \<and>
   occurs_at ''- Required Deliverables: SystemVerilog/UVM Testbench, waveform, RTL Code in VHDL.''
     (buildPrompt ''counter #7'' ''VHDL'' [''testbench'', ''waveform'', ''rtlCode'']) 404"
proof -
  have c: "CHR ''#'' \<in> set ''counter #7''" by simp
  have fresh: "CHR ''#'' \<notin> set (buildPrompt [] ''VHDL'' [''testbench'', ''waveform'', ''rtlCode''])"
    by (simp add: buildPrompt_def deliverableList_def deliverablePhrase_def)
  from c fresh have ex: "\<exists>c \<in> set ''counter #7''.
      c \<notin> set (buildPrompt [] ''VHDL'' [''testbench'', ''waveform'', ''rtlCode''])"
    by blast
  have other: "''waveform'' \<notin> {''rtlCode'', ''testbench'', ''testCases'', ''designSpec''}" by simp
  note t = buildPrompt_description_and_deliverables
    [of "''counter #7''" "''VHDL''" "[''testbench'', ''waveform'', ''rtlCode'']" "''waveform''"]
  from t ex have 1: "occurrences ''counter #7''
      (buildPrompt ''counter #7'' ''VHDL'' [''testbench'', ''waveform'', ''rtlCode'']) = [270]"
    by blast
  from t have 2: "occurs_at ''counter #7''
      (buildPrompt ''counter #7'' ''VHDL'' [''testbench'', ''waveform'', ''rtlCode'']) 270"
    by blast
  from t other have 3: "deliverablePhrase ''VHDL'' ''waveform'' = ''waveform''"
    by blast
  from t have "occurs_at (''- Required Deliverables: '' @
      join '', '' (map (deliverablePhrase ''VHDL'') [''testbench'', ''waveform'', ''rtlCode'']) @ ''.'')
      (buildPrompt ''counter #7'' ''VHDL'' [''testbench'', ''waveform'', ''rtlCode''])
      (390 + length ''counter #7'' + length ''VHDL'')"
    by blast
  then have 4: "occurs_at ''- Required Deliverables: SystemVerilog/UVM Testbench, waveform, RTL Code in VHDL.''
     (buildPrompt ''counter #7'' ''VHDL'' [''testbench'', ''waveform'', ''rtlCode'']) 404"
    by (simp add: deliverablePhrase_def)
  from c fresh 1 2 other 3 4 show ?thesis by blast
qed

text \<open>
  Claim C2, as stated, fails for the description \<open>a\<close>: it occurs in the prompt at position 11,
  in the fixed text, as well as at position 270, so it does not occur exactly once.
\<close>

theorem buildPrompt_description_occurs_twice:
  "occurs_at ''a'' (buildPrompt ''a'' (language_name Verilog) [''rtlCode'']) 11 \<and>
   occurs_at ''a'' (buildPrompt ''a'' (language_name Verilog) [''rtlCode'']) 270 \<and>
   length (occurrences ''a'' (buildPrompt ''a'' (language_name Verilog) [''rtlCode''])) \<noteq> 1"
proof -
  have a: "occurs_at ''a'' (buildPrompt ''a'' (language_name Verilog) [''rtlCode'']) 11"
    by (simp add: occurs_at_def buildPrompt_def deliverableList_def deliverablePhrase_def)
  have b: "occurs_at ''a'' (buildPrompt ''a'' (language_name Verilog) [''rtlCode'']) 270"
    by (rule buildPrompt_description_at)
  from a b show ?thesis using occurrences_two [OF a b] by simp
qed


section \<open>Properties of the application component\<close>

subsection \<open>Auxiliary facts\<close>

lemma trim_empty_iff: "trim s = [] \<longleftrightarrow> (\<forall>c \<in> set s. is_js_space c)"
proof
  assume "trim s = []"
  then have every: "\<forall>c \<in> set (dropWhile is_js_space s). is_js_space c"
    by (simp add: trim_def dropWhile_eq_Nil_conv)
  have "dropWhile is_js_space s = []"
  proof (rule ccontr)
    assume ne: "dropWhile is_js_space s \<noteq> []"
    then have "\<not> is_js_space (hd (dropWhile is_js_space s))"
      by (rule hd_dropWhile)
    moreover from ne have "hd (dropWhile is_js_space s) \<in> set (dropWhile is_js_space s)"
      by (rule hd_in_set)
    ultimately show False using every by blast
  qed
  then show "\<forall>c \<in> set s. is_js_space c"
    by (simp add: dropWhile_eq_Nil_conv)
next
  assume "\<forall>c \<in> set s. is_js_space c"
  then have "dropWhile is_js_space s = []"
    by (simp add: dropWhile_eq_Nil_conv)
  then show "trim s = []"
    unfolding trim_def by (simp del: dropWhile_eq_Nil_conv)
qed

lemma stopLoading_fields [simp]:
  "error (stopLoading s) = error s"
  "generatedOutput (stopLoading s) = generatedOutput s"
  "activeTab (stopLoading s) = activeTab s"
  "outbound (stopLoading s) = outbound s"
  "deliverables (stopLoading s) = deliverables s"
  "isLoading (stopLoading s) = False"
  by (simp_all add: stopLoading_def clearInterval_def Let_def split: option.splits)

lemma stopLoading_intervals:
  "loadingInterval s = Some (Suc h) \<Longrightarrow>
   map fst (intervals (stopLoading s)) = filter (\<lambda>h'. h' \<noteq> Suc h) (map fst (intervals s))"
  by (simp add: stopLoading_def clearInterval_def filter_map comp_def)

lemma generate_begin_rejected:
  "isLoading s \<or> trim (description s) = [] \<Longrightarrow> generate_begin s = s"
  by (simp add: generate_begin_def)

lemma generate_begin_accepted:
  assumes "\<not> isLoading s" "trim (description s) \<noteq> []"
  shows "isLoading (generate_begin s)"
    and "error (generate_begin s) = None"
    and "generatedOutput (generate_begin s) = None"
    and "loadingInterval (generate_begin s) = Some (Suc (handles_issued s))"
    and "map fst (intervals (generate_begin s)) = map fst (intervals s) @ [Suc (handles_issued s)]"
    and "outbound (generate_begin s) =
           outbound s @ [generateHdl_request (description s) (hdlLanguage s) (selectedDeliverables s)]"
    and "activeTab (generate_begin s) = activeTab s"
  using assms
  by (simp_all add: generate_begin_def startLoading_def setInterval_def Let_def selectedDeliverables_def)

lemma interval_callback_keys:
  "map fst (intervals (interval_callback h s)) = map fst (intervals s)"
proof (cases "map_of (intervals s) h")
  case None
  then show ?thesis by (simp add: interval_callback_def)
next
  case (Some i)
  then have "h \<in> set (map fst (intervals s))"
    by (metis map_of_eq_None_iff option.distinct(1) set_map)
  with Some show ?thesis
    by (simp add: interval_callback_def Let_def update_keys)
qed

lemma react_while_loading:
  assumes "isLoading s"
  shows "isLoading (react e s)"
    and "loadingInterval (react e s) = loadingInterval s"
    and "map fst (intervals (react e s)) = map fst (intervals s)"
    and "error (react e s) = error s"
    and "generatedOutput (react e s) = generatedOutput s"
    and "outbound (react e s) = outbound s"
  using assms interval_callback_keys [of _ s]
  by (cases e;
      simp add: generate_begin_def toggleDeliverable_def setActiveTab_def interval_callback_def
        Let_def split: option.splits)+

lemma run_while_loading:
  "isLoading s \<Longrightarrow>
   isLoading (run es s) \<and>
   loadingInterval (run es s) = loadingInterval s \<and>
   map fst (intervals (run es s)) = map fst (intervals s) \<and>
   error (run es s) = error s \<and>
   generatedOutput (run es s) = generatedOutput s \<and>
   outbound (run es s) = outbound s"
proof (induction es arbitrary: s)
  case Nil
  then show ?case by (simp add: run_def)
next
  case (Cons e es)
  from Cons.prems have l: "isLoading (react e s)" by (rule react_while_loading)
  from Cons.IH [OF l] react_while_loading(2-6) [OF Cons.prems, of e]
  show ?case by (simp add: run_def)
qed

subsection \<open>The surfaced error\<close>

text \<open>
  Claim C4, as the code has it.  When the remote call rejects, \<open>generateHdl\<close> throws a new
  \<open>Error\<close> with a fixed message whatever was thrown to it, so the text shown is the fixed
  label followed by that fixed message.  In \<open>generate\<close> itself the label is followed by the
  message of the caught value when that value is an \<open>Error\<close>, and by the fallback text
  otherwise.
\<close>

theorem surfaced_error_text:
  "generateHdl_settle JSON_parse (Rejected e) =
     Inl (ErrorObject ''The AI model failed to generate a valid response.'') \<and>
   error (generate_resume JSON_parse (Rejected e) s) =
     Some ''Failed to generate HDL content. The AI model failed to generate a valid response.'' \<and>
   error (generate_settle (Inl (ErrorObject m)) s) = Some (''Failed to generate HDL content. '' @ m) \<and>
   error (generate_settle (Inl (NonError v)) s) =
     Some ''Failed to generate HDL content. An unknown error occurred. Please check the console for details.''"
  by (simp add: generateHdl_settle_def try_block_def generate_resume_def generate_settle_def
      stopLoading_fields)

text \<open>
  Claim C4, as stated, fails when the remote call rejects with an \<open>Error\<close> whose message is
  \<open>quota exceeded\<close>: the text shown does not contain that message.
\<close>

theorem underlying_message_not_surfaced:
  "error (generate_resume sample_JSON_parse (Rejected (ErrorObject ''quota exceeded'')) (generate_begin initial_state)) =
     Some ''Failed to generate HDL content. The AI model failed to generate a valid response.'' \<and>
   \<not> sublist ''quota exceeded''
       ''Failed to generate HDL content. The AI model failed to generate a valid response.''"
  by (simp add: generateHdl_settle_def try_block_def generate_resume_def generate_settle_def
      stopLoading_fields sublist_code)

subsection \<open>The guard of \<open>generate\<close>\<close>

text \<open>
  Claim C6.  A call of \<open>generate\<close> while \<open>isLoading\<close> is true, or while the description is
  empty or consists of white space only, changes nothing: neither the component nor the
  list of requests sent.  After an accepted call, and whatever happens before its remote
  call settles, the component is still loading, a further call of \<open>generate\<close> changes
  nothing, and exactly one request has been added to those sent before.
\<close>

theorem generate_guard:
  "(isLoading s \<or> (\<forall>c \<in> set (description s). is_js_space c) \<longrightarrow> generate_begin s = s) \<and>
   (\<not> isLoading s \<and> (\<exists>c \<in> set (description s). \<not> is_js_space c) \<longrightarrow>
      isLoading (run es (generate_begin s)) \<and>
      generate_begin (run es (generate_begin s)) = run es (generate_begin s) \<and>
      outbound (generate_begin (run es (generate_begin s))) =
        outbound s @ [generateHdl_request (description s) (hdlLanguage s) (selectedDeliverables s)])"
proof (intro conjI impI)
  assume "isLoading s \<or> (\<forall>c \<in> set (description s). is_js_space c)"
  then show "generate_begin s = s"
    by (simp add: generate_begin_rejected trim_empty_iff)
next
  assume a: "\<not> isLoading s \<and> (\<exists>c \<in> set (description s). \<not> is_js_space c)"
  then have idle: "\<not> isLoading s" and nonblank: "trim (description s) \<noteq> []"
    by (simp_all add: trim_empty_iff)
  have l: "isLoading (generate_begin s)"
    using idle nonblank by (rule generate_begin_accepted)
  note inv = run_while_loading [OF l, of es]
  from inv show busy: "isLoading (run es (generate_begin s))" by simp
  from busy show same: "generate_begin (run es (generate_begin s)) = run es (generate_begin s)"
    by (simp add: generate_begin_rejected)
  from inv same generate_begin_accepted(6) [OF idle nonblank]
  show "outbound (generate_begin (run es (generate_begin s))) =
        outbound s @ [generateHdl_request (description s) (hdlLanguage s) (selectedDeliverables s)]"
    by simp
qed

theorem generate_guard_witness:
  "\<not> isLoading initial_state \<and>
   \<not> is_js_space (CHR ''D'') \<and> CHR ''D'' \<in> set (description initial_state) \<and>
   generate_begin (generate_begin initial_state) = generate_begin initial_state \<and>
   length (outbound (generate_begin (generate_begin initial_state))) = 1 \<and>
   isLoading (generate_begin initial_state) \<and>
   generate_begin (initial_state \<lparr> description := '' '' \<rparr>) = initial_state \<lparr> description := '' '' \<rparr>"
proof -
  have d: "\<not> is_js_space (CHR ''D'')" "CHR ''D'' \<in> set (description initial_state)"
    by (simp_all add: is_js_space_def initial_state_def)
  then have ex: "\<exists>c \<in> set (description initial_state). \<not> is_js_space c" by blast
  have idle: "\<not> isLoading initial_state" by (simp add: initial_state_def)
  have blank: "\<forall>c \<in> set (description (initial_state \<lparr> description := '' '' \<rparr>)). is_js_space c"
    by (simp add: is_js_space_def)
  have r: "run [] t = t" for t by (simp add: run_def)
  from generate_guard [of initial_state "[]"] idle ex
  have 1: "isLoading (generate_begin initial_state)"
    "generate_begin (generate_begin initial_state) = generate_begin initial_state"
    "outbound (generate_begin (generate_begin initial_state)) =
       outbound initial_state @ [generateHdl_request (description initial_state)
          (hdlLanguage initial_state) (selectedDeliverables initial_state)]"
    unfolding r by blast+
  from generate_guard [of "initial_state \<lparr> description := '' '' \<rparr>" "[]"] blank
  have 2: "generate_begin (initial_state \<lparr> description := '' '' \<rparr>) = initial_state \<lparr> description := '' '' \<rparr>"
    by blast
  from 1(3) have 3: "length (outbound (generate_begin (generate_begin initial_state))) = 1"
    by (simp add: initial_state_def)
  from d idle 1 2 3 show ?thesis by blast
qed

subsection \<open>Clearing on entry\<close>

text \<open>
  Claim C7.  An accepted call of \<open>generate\<close> has set the error and the result to \<open>null\<close> when
  it suspends at the \<open>await\<close>; the result stays \<open>null\<close> whatever happens while the call is
  pending, and it is still \<open>null\<close> after the call has failed.
\<close>

theorem generate_clears_on_entry:
  "\<not> isLoading s \<and> (\<exists>c \<in> set (description s). \<not> is_js_space c) \<longrightarrow>
     error (generate_begin s) = None \<and>
     generatedOutput (generate_begin s) = None \<and>
     generatedOutput (run es (generate_begin s)) = None \<and>
     generatedOutput (generate_settle (Inl e) (run es (generate_begin s))) = None \<and>
     generatedOutput (generate_resume JSON_parse (Rejected e) (run es (generate_begin s))) = None"
proof
  assume a: "\<not> isLoading s \<and> (\<exists>c \<in> set (description s). \<not> is_js_space c)"
  then have idle: "\<not> isLoading s" and nonblank: "trim (description s) \<noteq> []"
    by (simp_all add: trim_empty_iff)
  note b = generate_begin_accepted [OF idle nonblank]
  note inv = run_while_loading [OF b(1), of es]
  have fail: "generatedOutput (generate_settle (Inl x) t) = generatedOutput t" for x t
    by (simp add: generate_settle_def Let_def)
  show "error (generate_begin s) = None \<and>
     generatedOutput (generate_begin s) = None \<and>
     generatedOutput (run es (generate_begin s)) = None \<and>
     generatedOutput (generate_settle (Inl e) (run es (generate_begin s))) = None \<and>
     generatedOutput (generate_resume JSON_parse (Rejected e) (run es (generate_begin s))) = None"
    using b(2,3) inv fail
    by (simp add: generate_resume_def generateHdl_settle_def try_block_def)
qed

theorem generate_clears_on_entry_witness:
  "\<not> isLoading stale_state \<and>
   \<not> is_js_space (CHR ''D'') \<and> CHR ''D'' \<in> set (description stale_state) \<and>
   generatedOutput stale_state = Some [(''rtlCode'', sample_record)] \<and>
   error stale_state = Some ''old error'' \<and>
   error (generate_begin stale_state) = None \<and>
   generatedOutput (generate_begin stale_state) = None \<and>
   generatedOutput (generate_settle (Inl (ErrorObject ''x'')) (run [IntervalFires 1] (generate_begin stale_state))) = None"
proof -
  have d: "\<not> is_js_space (CHR ''D'')" "CHR ''D'' \<in> set (description stale_state)"
    by (simp_all add: is_js_space_def initial_state_def stale_state_def)
  then have ex: "\<exists>c \<in> set (description stale_state). \<not> is_js_space c" by blast
  have idle: "\<not> isLoading stale_state" by (simp add: initial_state_def stale_state_def)
  have old: "generatedOutput stale_state = Some [(''rtlCode'', sample_record)]"
    "error stale_state = Some ''old error''"
    by (simp_all add: stale_state_def)
  from generate_clears_on_entry [of stale_state "[IntervalFires 1]" "ErrorObject ''x''" sample_JSON_parse] idle ex
  have "error (generate_begin stale_state) = None"
    "generatedOutput (generate_begin stale_state) = None"
    "generatedOutput (generate_settle (Inl (ErrorObject ''x'')) (run [IntervalFires 1] (generate_begin stale_state))) = None"
    by blast+
  with d idle old show ?thesis by blast
qed

subsection \<open>The success exit\<close>

text \<open>
  On the success exit \<open>generate\<close> stores the result of \<open>generateHdl\<close>.  When the result has at
  least one key and its first key is not the empty string, the active tab becomes that
  first key; when the result has no key, the active tab keeps its value.
\<close>

theorem success_stores_result_and_selects_tab:
  "generatedOutput (generate_settle (Inr result) s) = Some result \<and>
   (JSON_parse (trim rawText) = Inr parsedJson \<longrightarrow>
      generatedOutput (generate_resume JSON_parse (Responded rawText) s) =
        Some (cleanOutput_of parsedJson)) \<and>
   (Object_keys result = [] \<longrightarrow>
      activeTab (generate_settle (Inr result) s) = activeTab s) \<and>
   (\<forall>firstKey ks. Object_keys result = firstKey # ks \<and> firstKey \<noteq> [] \<longrightarrow>
      activeTab (generate_settle (Inr result) s) = Some firstKey)"
  by (simp add: generate_settle_def generate_resume_def generateHdl_settle_def try_block_def
      Let_def split: list.splits)

theorem success_stores_result_and_selects_tab_witness:
  "Object_keys [(''testbench'', sample_record), (''rtlCode'', sample_record)] = [''testbench'', ''rtlCode''] \<and>
   ''testbench'' \<noteq> [] \<and>
   activeTab (generate_settle (Inr [(''testbench'', sample_record), (''rtlCode'', sample_record)]) stale_state)
     = Some ''testbench'' \<and>
   Object_keys [] = [] \<and>
   generatedOutput (generate_settle (Inr []) stale_state) = Some [] \<and>
   activeTab (generate_settle (Inr []) stale_state) = Some ''rtlCode'' \<and>
   sample_JSON_parse (trim '' {} '') = Inr (JObject []) \<and>
   generatedOutput (generate_resume sample_JSON_parse (Responded '' {} '') stale_state) = Some []"
  using success_stores_result_and_selects_tab
      [of "[(''testbench'', sample_record), (''rtlCode'', sample_record)]" stale_state
          sample_JSON_parse "'' {} ''" "JObject []"]
    success_stores_result_and_selects_tab [of "[]" stale_state sample_JSON_parse "'' {} ''" "JObject []"]
  by (simp add: Object_keys_def stale_state_def sample_JSON_parse_def trim_def is_js_space_def
      cleanOutput_of_def for_in_keys_def)

text \<open>
  Claim C8.  The code breaks the claim for a result whose first key is the empty string,
  as the reply \<open>{"": {...}}\<close> produces.  The result has a key, so the claim has the active
  tab set to it; the test \<open>if (firstKey)\<close> takes the empty string for no key, and the active
  tab keeps the value it had, \<open>rtlCode\<close> from an earlier call or \<open>null\<close>.
\<close>

theorem empty_first_key_not_selected:
  "cleanOutput_of (JObject [('''', sample_record)]) = [('''', sample_record)] \<and>
   Object_keys [('''', sample_record)] = [''''] \<and>
   generatedOutput (generate_settle (Inr [('''', sample_record)]) stale_state) =
     Some [('''', sample_record)] \<and>
   activeTab (generate_settle (Inr [('''', sample_record)]) stale_state) = Some ''rtlCode'' \<and>
   activeTab (generate_settle (Inr [('''', sample_record)]) initial_state) = None"
  by (simp add: generate_settle_def Let_def run_filter truthy_sample stale_state_def initial_state_def)

subsection \<open>Stopping the rotation\<close>

text \<open>
  Claim C9.  An accepted call of \<open>generate\<close> starts one interval timer and keeps its handle.
  Whatever happens while the call is pending the timer keeps running, and when the call
  settles, with a result or with a failure, \<open>isLoading\<close> is false and that timer is
  gone: the timers running are those that ran before the call.
\<close>

theorem rotation_stopped_on_exit:
  "\<not> isLoading s \<and> (\<exists>c \<in> set (description s). \<not> is_js_space c) \<longrightarrow>
     loadingInterval (generate_begin s) = Some (Suc (handles_issued s)) \<and>
     Suc (handles_issued s) \<in> set (map fst (intervals (run es (generate_begin s)))) \<and>
     \<not> isLoading (generate_settle settled (run es (generate_begin s))) \<and>
     Suc (handles_issued s) \<notin> set (map fst (intervals (generate_settle settled (run es (generate_begin s))))) \<and>
     map fst (intervals (generate_settle settled (run es (generate_begin s)))) =
       filter (\<lambda>h. h \<noteq> Suc (handles_issued s)) (map fst (intervals s))"
proof
  assume a: "\<not> isLoading s \<and> (\<exists>c \<in> set (description s). \<not> is_js_space c)"
  then have idle: "\<not> isLoading s" and nonblank: "trim (description s) \<noteq> []"
    by (simp_all add: trim_empty_iff)
  let ?h = "Suc (handles_issued s)"
  let ?s2 = "run es (generate_begin s)"
  note b = generate_begin_accepted [OF idle nonblank]
  note inv = run_while_loading [OF b(1), of es]
  have h2: "loadingInterval ?s2 = Some ?h" using inv b(4) by simp
  have k2: "map fst (intervals ?s2) = map fst (intervals s) @ [?h]" using inv b(5) by simp
  obtain t where t: "generate_settle settled ?s2 = stopLoading t"
    and tl: "loadingInterval t = loadingInterval ?s2" and ti: "intervals t = intervals ?s2"
    by (cases settled; cases "Object_keys (projr settled)")
       (auto simp: generate_settle_def Let_def split: list.splits sum.splits)
  have keys: "map fst (intervals (generate_settle settled ?s2)) = filter (\<lambda>h. h \<noteq> ?h) (map fst (intervals s))"
    using stopLoading_intervals [of t "handles_issued s"] t tl ti h2 k2 by simp
  have off: "\<not> isLoading (generate_settle settled ?s2)" using t by simp
  from keys have gone: "?h \<notin> set (map fst (intervals (generate_settle settled ?s2)))"
    by simp
  from b(4) k2 off gone keys
  show "loadingInterval (generate_begin s) = Some ?h \<and>
     ?h \<in> set (map fst (intervals ?s2)) \<and>
     \<not> isLoading (generate_settle settled ?s2) \<and>
     ?h \<notin> set (map fst (intervals (generate_settle settled ?s2))) \<and>
     map fst (intervals (generate_settle settled ?s2)) =
       filter (\<lambda>h. h \<noteq> ?h) (map fst (intervals s))"
    by simp
qed

theorem rotation_stopped_on_exit_witness:
  "\<not> isLoading initial_state \<and>
   \<not> is_js_space (CHR ''D'') \<and> CHR ''D'' \<in> set (description initial_state) \<and>
   intervals (run [IntervalFires 1, Generate] (generate_begin initial_state)) = [(1, 1)] \<and>
   intervals (generate_settle (Inr []) (run [IntervalFires 1, Generate] (generate_begin initial_state))) = [] \<and>
   intervals (generate_settle (Inl (ErrorObject ''x'')) (run [IntervalFires 1, Generate] (generate_begin initial_state))) = [] \<and>
   \<not> isLoading (generate_settle (Inr []) (run [IntervalFires 1, Generate] (generate_begin initial_state))) \<and>
   \<not> isLoading (generate_settle (Inl (ErrorObject ''x'')) (run [IntervalFires 1, Generate] (generate_begin initial_state)))"
proof -
  have d: "\<not> is_js_space (CHR ''D'')" "CHR ''D'' \<in> set (description initial_state)"
    by (simp_all add: is_js_space_def initial_state_def)
  then have ex: "\<exists>c \<in> set (description initial_state). \<not> is_js_space c" by blast
  have idle: "\<not> isLoading initial_state" by (simp add: initial_state_def)
  have none: "intervals initial_state = []" "handles_issued initial_state = 0"
    by (simp_all add: initial_state_def)
  have mid: "intervals (run [IntervalFires 1, Generate] (generate_begin initial_state)) = [(1, 1)]"
    by (simp add: run_def generate_begin_def startLoading_def setInterval_def Let_def
        interval_callback_def messages_def initial_state_def trim_def is_js_space_def)
  from rotation_stopped_on_exit [of initial_state "[IntervalFires 1, Generate]" "Inr []"] idle ex none
  have 1: "intervals (generate_settle (Inr []) (run [IntervalFires 1, Generate] (generate_begin initial_state))) = []"
    "\<not> isLoading (generate_settle (Inr []) (run [IntervalFires 1, Generate] (generate_begin initial_state)))"
    by simp_all
  from rotation_stopped_on_exit [of initial_state "[IntervalFires 1, Generate]" "Inl (ErrorObject ''x'')"] idle ex none
  have 2: "intervals (generate_settle (Inl (ErrorObject ''x'')) (run [IntervalFires 1, Generate] (generate_begin initial_state))) = []"
    "\<not> isLoading (generate_settle (Inl (ErrorObject ''x'')) (run [IntervalFires 1, Generate] (generate_begin initial_state)))"
    by simp_all
  from d idle mid 1 2 show ?thesis by blast
qed

subsection \<open>Toggling a deliverable\<close>

text \<open>
  Claim C10.  For an index within the bounds of the list, \<open>toggleDeliverable\<close> returns
  normally; it changes nothing in the component but the list; the list keeps its length;
  the entry at the index has its \<open>checked\<close> flag negated and keeps its \<open>id\<close> and \<open>name\<close>; and
  every other entry is unchanged and stays where it was.
\<close>

theorem toggleDeliverable_frame:
  "0 \<le> index \<and> index < int (length (deliverables s)) \<longrightarrow>
     (\<exists>s'. toggleDeliverable index s = Some s' \<and>
        s' = s\<lparr> deliverables := deliverables s' \<rparr> \<and>
        length (deliverables s') = length (deliverables s) \<and>
        checked (deliverables s' ! nat index) = (\<not> checked (deliverables s ! nat index)) \<and>
        id' (deliverables s' ! nat index) = id' (deliverables s ! nat index) \<and>
        name (deliverables s' ! nat index) = name (deliverables s ! nat index) \<and>
        (\<forall>j < length (deliverables s). j \<noteq> nat index \<longrightarrow> deliverables s' ! j = deliverables s ! j))"
  by (auto simp: toggleDeliverable_def Let_def)

theorem toggleDeliverable_frame_witness:
  "(0::int) \<le> 2 \<and> (2::int) < int (length (deliverables initial_state)) \<and>
   map checked (deliverables initial_state) = [True, True, False, False] \<and>
   map_option (\<lambda>s'. map checked (deliverables s')) (toggleDeliverable 2 initial_state) = Some [True, True, True, False] \<and>
   map_option (\<lambda>s'. map id' (deliverables s')) (toggleDeliverable 2 initial_state) =
     Some (map id' (deliverables initial_state)) \<and>
   map_option (\<lambda>s'. map name (deliverables s')) (toggleDeliverable 2 initial_state) =
     Some (map name (deliverables initial_state))"
proof -
  have b: "(0::int) \<le> 2 \<and> (2::int) < int (length (deliverables initial_state))"
    by (simp add: initial_state_def availableDeliverables_def)
  with toggleDeliverable_frame [of 2 initial_state]
  obtain s' where s': "toggleDeliverable 2 initial_state = Some s'"
    by blast
  then have "deliverables s' = (deliverables initial_state)
      [2 := (deliverables initial_state ! 2)\<lparr> checked := \<not> checked (deliverables initial_state ! 2) \<rparr>]"
    by (auto simp: toggleDeliverable_def Let_def split: if_splits)
  then have "map checked (deliverables s') = [True, True, True, False]"
    "map id' (deliverables s') = map id' (deliverables initial_state)"
    "map name (deliverables s') = map name (deliverables initial_state)"
    by (simp_all add: initial_state_def availableDeliverables_def)
  with b s' show ?thesis
    by (simp add: initial_state_def availableDeliverables_def)
qed

end
